theory Spec2Isabelle
  imports Main
begin

section \<open>Values, expressions and the solver oracle\<close>

text \<open>
  The models of \<^verbatim>\<open>manticore/native/models.py\<close> work on values that are either a Python
  integer or a bit-vector expression (\<^verbatim>\<open>issymbolic\<close>).  The expression classes, the
  operators \<^verbatim>\<open>ITEBV\<close> and \<^verbatim>\<open>ZEXTEND\<close>, the CPU and the solver are imported by the file
  and are not part of it; they are modelled below from the data model of the specification.
\<close>

text \<open>Modelled from the spec: the expression nodes (the module \<^verbatim>\<open>core.smtlib\<close> is
  imported, not defined, by the source).  A node carries its width where the specification
  gives it one; a variable is named by a number.\<close>

datatype bitvec =
    Constant nat int
  | Variable nat nat
  | ZeroExtend nat bitvec
  | Subtract bitvec bitvec
  | IfThenElse boolexp bitvec bitvec
and boolexp =
    Equal bitvec bitvec
  | NotEqual bitvec bitvec

fun width :: "bitvec \<Rightarrow> nat" where
  "width (Constant w v) = w"
| "width (Variable w i) = w"
| "width (ZeroExtend w e) = w"
| "width (Subtract a b) = width a"
| "width (IfThenElse c t e) = width t"

type_synonym assignment = "nat \<Rightarrow> int"

text \<open>Modelled from the spec: the meaning of an expression under an assignment of the
  variables.  Every bit-vector node denotes an unsigned integer below \<open>2 ^ width\<close>.\<close>

fun eval :: "assignment \<Rightarrow> bitvec \<Rightarrow> int"
  and beval :: "assignment \<Rightarrow> boolexp \<Rightarrow> bool" where
  "eval \<sigma> (Constant w v) = v mod 2 ^ w"
| "eval \<sigma> (Variable w i) = \<sigma> i mod 2 ^ w"
| "eval \<sigma> (ZeroExtend w e) = eval \<sigma> e mod 2 ^ w"
| "eval \<sigma> (Subtract a b) = (eval \<sigma> a - eval \<sigma> b) mod 2 ^ width a"
| "eval \<sigma> (IfThenElse c t e) = (if beval \<sigma> c then eval \<sigma> t else eval \<sigma> e)"
| "beval \<sigma> (Equal a b) = (eval \<sigma> a = eval \<sigma> b)"
| "beval \<sigma> (NotEqual a b) = (eval \<sigma> a \<noteq> eval \<sigma> b)"

text \<open>A value: a Python \<^verbatim>\<open>int\<close> or an expression.\<close>

datatype val = Concrete int | Symbolic bitvec

fun issymbolic :: "val \<Rightarrow> bool" where
  "issymbolic (Concrete n) = False"
| "issymbolic (Symbolic e) = True"

fun val_eval :: "assignment \<Rightarrow> val \<Rightarrow> int" where
  "val_eval \<sigma> (Concrete n) = n"
| "val_eval \<sigma> (Symbolic e) = eval \<sigma> e"

text \<open>The constraint set of a state: an ordered collection of boolean formulas.\<close>

type_synonym constraint_set = "boolexp list"

definition satisfies :: "assignment \<Rightarrow> constraint_set \<Rightarrow> bool" where
  "satisfies \<sigma> constrs = (\<forall>c \<in> set constrs. beval \<sigma> c)"

definition satisfiable :: "constraint_set \<Rightarrow> bool" where
  "satisfiable constrs = (\<exists>\<sigma>. satisfies \<sigma> constrs)"

text \<open>Modelled from the spec: the solver oracle \<^verbatim>\<open>Z3Solver.instance().can_be_true\<close>, the
  feasibility query "is it possible that the expression holds, given the set".  The solver
  is assumed to answer every query definitively.\<close>

definition can_be_true :: "constraint_set \<Rightarrow> boolexp \<Rightarrow> bool" where
  "can_be_true constrs e = (\<exists>\<sigma>. satisfies \<sigma> constrs \<and> beval \<sigma> e)"

text \<open>Modelled from the spec: the comparisons \<^verbatim>\<open>byt == 0\<close> and \<^verbatim>\<open>byt != 0\<close> of an
  expression with the integer 0, which build a boolean node against a constant of the
  expression's width.\<close>

definition eq_zero :: "bitvec \<Rightarrow> boolexp" where
  "eq_zero e = Equal e (Constant (width e) 0)"

definition ne_zero :: "bitvec \<Rightarrow> boolexp" where
  "ne_zero e = NotEqual e (Constant (width e) 0)"

text \<open>Modelled from the spec: the Python operators on values.  A comparison of two
  integers is a Python \<^verbatim>\<open>bool\<close>; a comparison or a subtraction with an expression on
  either side builds a node, the integer operand becoming a constant of the expression's
  width (for \<^verbatim>\<open>int != expr\<close> Python calls the reflected method of the expression, so
  the expression is the left operand of the node).\<close>

datatype cond = CBool bool | SBool boolexp

fun val_ne :: "val \<Rightarrow> val \<Rightarrow> cond" where
  "val_ne (Concrete m) (Concrete n) = CBool (m \<noteq> n)"
| "val_ne (Symbolic x) (Concrete n) = SBool (NotEqual x (Constant (width x) n))"
| "val_ne (Concrete m) (Symbolic y) = SBool (NotEqual y (Constant (width y) m))"
| "val_ne (Symbolic x) (Symbolic y) = SBool (NotEqual x y)"

fun val_eq :: "val \<Rightarrow> val \<Rightarrow> cond" where
  "val_eq (Concrete m) (Concrete n) = CBool (m = n)"
| "val_eq (Symbolic x) (Concrete n) = SBool (Equal x (Constant (width x) n))"
| "val_eq (Concrete m) (Symbolic y) = SBool (Equal y (Constant (width y) m))"
| "val_eq (Symbolic x) (Symbolic y) = SBool (Equal x y)"

fun val_sub :: "val \<Rightarrow> val \<Rightarrow> val" where
  "val_sub (Concrete m) (Concrete n) = Concrete (m - n)"
| "val_sub (Symbolic x) (Concrete n) = Symbolic (Subtract x (Constant (width x) n))"
| "val_sub (Concrete m) (Symbolic y) = Symbolic (Subtract (Constant (width y) m) y)"
| "val_sub (Symbolic x) (Symbolic y) = Symbolic (Subtract x y)"

text \<open>Modelled from the spec: \<^verbatim>\<open>ZEXTEND(x, size)\<close> masks an integer to \<open>sz\<close> bits and
  zero-extends an expression that is narrower than \<open>sz\<close>.\<close>

fun ZEXTEND :: "val \<Rightarrow> nat \<Rightarrow> val" where
  "ZEXTEND (Concrete n) sz = Concrete (n mod 2 ^ sz)"
| "ZEXTEND (Symbolic e) sz = Symbolic (if width e < sz then ZeroExtend sz e else e)"

text \<open>Modelled from the spec: \<^verbatim>\<open>ITEBV(size, cond, true_value, false_value)\<close> selects a
  branch at once when the condition is a Python \<^verbatim>\<open>bool\<close>, and builds an if-then-else
  node otherwise, an integer branch becoming a constant of width \<open>sz\<close>.\<close>

fun as_bitvec :: "nat \<Rightarrow> val \<Rightarrow> bitvec" where
  "as_bitvec sz (Concrete n) = Constant sz n"
| "as_bitvec sz (Symbolic e) = e"

fun ITEBV :: "nat \<Rightarrow> cond \<Rightarrow> val \<Rightarrow> val \<Rightarrow> val" where
  "ITEBV sz (CBool b) true_value false_value = (if b then true_value else false_value)"
| "ITEBV sz (SBool c) true_value false_value =
     Symbolic (IfThenElse c (as_bitvec sz true_value) (as_bitvec sz false_value))"

section \<open>The CPU and the execution state\<close>

text \<open>Modelled from the spec: the address space maps every integer address to a byte
  value; \<^verbatim>\<open>read_int(addr, 8)\<close> returns the value at the address and
  \<^verbatim>\<open>write_int(addr, value, 8)\<close> stores one, visible to every later read.  All reads and
  writes of the source have width 8.\<close>

record Cpu =
  memory :: "int \<Rightarrow> val"
  address_bit_size :: nat

record State =
  cpu :: Cpu
  constraints :: constraint_set

definition read_int :: "Cpu \<Rightarrow> int \<Rightarrow> val" where
  "read_int c a = memory c a"

definition write_int :: "Cpu \<Rightarrow> int \<Rightarrow> val \<Rightarrow> Cpu" where
  "write_int c a v = c\<lparr>memory := (memory c)(a := v)\<rparr>"

section \<open>The null classifier\<close>

definition is_NULL :: "val \<Rightarrow> constraint_set \<Rightarrow> bool" where
  "is_NULL byte constrs =
     (case byte of
        Symbolic e \<Rightarrow> \<not> can_be_true constrs (ne_zero e)
      | Concrete n \<Rightarrow> n = 0)"

definition not_NULL :: "val \<Rightarrow> constraint_set \<Rightarrow> bool" where
  "not_NULL byte constrs =
     (case byte of
        Symbolic e \<Rightarrow> \<not> can_be_true constrs (eq_zero e)
      | Concrete n \<Rightarrow> n \<noteq> 0)"

section \<open>The zero scanners\<close>

text \<open>The loop of \<^verbatim>\<open>_find_zero\<close>, from the current offset on.  The loop has no bound, so
  the result is an option: \<open>None\<close> is the scan that never returns.\<close>

partial_function (option) find_zero_from :: "Cpu \<Rightarrow> constraint_set \<Rightarrow> int \<Rightarrow> nat \<Rightarrow> nat option" where
  "find_zero_from c constrs ptr offset =
     (case read_int c (ptr + int offset) of
        Symbolic e \<Rightarrow>
          if \<not> can_be_true constrs (ne_zero e) then Some offset
          else find_zero_from c constrs ptr (offset + 1)
      | Concrete n \<Rightarrow>
          if n = 0 then Some offset
          else find_zero_from c constrs ptr (offset + 1))"

definition find_zero :: "Cpu \<Rightarrow> constraint_set \<Rightarrow> int \<Rightarrow> nat option" where
  "find_zero c constrs ptr = find_zero_from c constrs ptr 0"

text \<open>The loop of \<^verbatim>\<open>_find_zeros\<close>, with the list \<^verbatim>\<open>can_be_zero\<close> built so far.\<close>

partial_function (option) find_zeros_from ::
  "Cpu \<Rightarrow> constraint_set \<Rightarrow> int \<Rightarrow> nat \<Rightarrow> nat list \<Rightarrow> nat list option" where
  "find_zeros_from c constrs ptr offset can_be_zero =
     (case read_int c (ptr + int offset) of
        Symbolic e \<Rightarrow>
          if \<not> can_be_true constrs (ne_zero e)
          then Some (if can_be_true constrs (eq_zero e) then can_be_zero @ [offset] else can_be_zero)
          else find_zeros_from c constrs ptr (offset + 1)
                 (if can_be_true constrs (eq_zero e) then can_be_zero @ [offset] else can_be_zero)
      | Concrete n \<Rightarrow>
          if n = 0 then Some (can_be_zero @ [offset])
          else find_zeros_from c constrs ptr (offset + 1) can_be_zero)"

definition find_zeros :: "Cpu \<Rightarrow> constraint_set \<Rightarrow> int \<Rightarrow> nat list option" where
  "find_zeros c constrs ptr = find_zeros_from c constrs ptr 0 []"

section \<open>The string models\<close>

text \<open>An exception of the source is a value.  Every outcome carries the state as the
  call left it, since the source mutates the state it is given; \<open>None\<close> is a call that
  never returns.\<close>

datatype error = ConcretizeArgument nat | IndexError

type_synonym 'a outcome = "((error + 'a) \<times> State) option"

subsection \<open>strlen\<close>

text \<open>The loop \<^verbatim>\<open>for offset in range(zero_idx - 1, -1, -1)\<close>: the third argument counts
  the offsets still to visit, so the offset visited first is one below it.\<close>

fun strlen_walk :: "Cpu \<Rightarrow> int \<Rightarrow> nat \<Rightarrow> val \<Rightarrow> val" where
  "strlen_walk c s 0 ret = ret"
| "strlen_walk c s (Suc offset) ret =
     strlen_walk c s offset
       (let byt = read_int c (s + int offset) in
        if issymbolic byt
        then ITEBV (address_bit_size c) (val_eq byt (Concrete 0)) (Concrete (int offset)) ret
        else ret)"

definition strlen :: "State \<Rightarrow> val \<Rightarrow> val outcome" where
  "strlen state s =
     (case s of
        Symbolic e \<Rightarrow> Some (Inl (ConcretizeArgument 1), state)
      | Concrete p \<Rightarrow>
          (case find_zero (cpu state) (constraints state) p of
             None \<Rightarrow> None
           | Some zero_idx \<Rightarrow>
               Some (Inr (strlen_walk (cpu state) p zero_idx (Concrete (int zero_idx))), state)))"

subsection \<open>strcmp\<close>

text \<open>One iteration of the walk; \<open>ret\<close> is \<open>None\<close> while the Python variable is
  \<^verbatim>\<open>None\<close>.\<close>

definition strcmp_step :: "Cpu \<Rightarrow> int \<Rightarrow> int \<Rightarrow> nat \<Rightarrow> val option \<Rightarrow> val option" where
  "strcmp_step c s1 s2 offset ret =
     (let s1char = ZEXTEND (read_int c (s1 + int offset)) (address_bit_size c);
          s2char = ZEXTEND (read_int c (s2 + int offset)) (address_bit_size c)
      in if issymbolic s1char \<or> issymbolic s2char then
           (case ret of
              None \<Rightarrow> Some (val_sub s1char s2char)
            | Some r \<Rightarrow>
                if r = Concrete 0 then Some (val_sub s1char s2char)
                else Some (ITEBV (address_bit_size c) (val_ne s1char s2char)
                             (val_sub s1char s2char) r))
         else
           (if s1char \<noteq> s2char then Some (val_sub s1char s2char)
            else (case ret of None \<Rightarrow> Some (Concrete 0) | Some r \<Rightarrow> Some r)))"

text \<open>The loop \<^verbatim>\<open>for offset in range(min_zero_idx, -1, -1)\<close>.\<close>

fun strcmp_walk :: "Cpu \<Rightarrow> int \<Rightarrow> int \<Rightarrow> nat \<Rightarrow> val option \<Rightarrow> val option" where
  "strcmp_walk c s1 s2 0 ret = strcmp_step c s1 s2 0 ret"
| "strcmp_walk c s1 s2 (Suc offset) ret =
     strcmp_walk c s1 s2 offset (strcmp_step c s1 s2 (Suc offset) ret)"

definition strcmp :: "State \<Rightarrow> val \<Rightarrow> val \<Rightarrow> (val option) outcome" where
  "strcmp state s1 s2 =
     (case s1 of
        Symbolic e \<Rightarrow> Some (Inl (ConcretizeArgument 1), state)
      | Concrete p1 \<Rightarrow>
     (case s2 of
        Symbolic e \<Rightarrow> Some (Inl (ConcretizeArgument 2), state)
      | Concrete p2 \<Rightarrow>
     (case find_zero (cpu state) (constraints state) p1 of
        None \<Rightarrow> None
      | Some s1_zero_idx \<Rightarrow>
     (case find_zero (cpu state) (constraints state) p2 of
        None \<Rightarrow> None
      | Some s2_zero_idx \<Rightarrow>
          Some (Inr (strcmp_walk (cpu state) p1 p2 (min s1_zero_idx s2_zero_idx) None),
                state)))))"

subsection \<open>strcpy\<close>

text \<open>The copy loop \<^verbatim>\<open>while not_NULL(c, constrs)\<close>; it returns the CPU, both pointers
  and the byte that ended it.\<close>

partial_function (option) strcpy_copy ::
  "Cpu \<Rightarrow> constraint_set \<Rightarrow> int \<Rightarrow> int \<Rightarrow> val \<Rightarrow> (Cpu \<times> int \<times> int \<times> val) option" where
  "strcpy_copy c constrs dst src ch =
     (if not_NULL ch constrs
      then strcpy_copy (write_int c dst ch) constrs (dst + 1) (src + 1)
             (read_int (write_int c dst ch) (src + 1))
      else Some (c, dst, src, ch))"

text \<open>The inner loop \<^verbatim>\<open>for zero in reversed(zeros)\<close>, over the list already reversed.\<close>

fun strcpy_wrap :: "Cpu \<Rightarrow> int \<Rightarrow> val \<Rightarrow> nat list \<Rightarrow> val \<Rightarrow> val" where
  "strcpy_wrap c src dst_val [] src_val = src_val"
| "strcpy_wrap c src dst_val (zero # zs) src_val =
     strcpy_wrap c src dst_val zs
       (ITEBV 8 (val_ne (read_int c (src + int zero)) (Concrete 0)) src_val dst_val)"

text \<open>One iteration of the outer loop of the ambiguous phase.  \<^verbatim>\<open>zeros[-1]\<close> raises
  \<^verbatim>\<open>IndexError\<close> on an empty list.\<close>

definition strcpy_tail_step ::
  "Cpu \<Rightarrow> int \<Rightarrow> int \<Rightarrow> nat \<Rightarrow> nat list \<Rightarrow> (error \<times> Cpu) + (Cpu \<times> nat list)" where
  "strcpy_tail_step c dst src offset zeros =
     (let src_val = read_int c (src + int offset);
          dst_val = read_int c (dst + int offset)
      in if zeros = [] then Inl (IndexError, c)
         else
           (let (src_val', zeros') =
                  (if last zeros = offset
                   then (ITEBV 8 (val_ne src_val (Concrete 0)) src_val (Concrete 0), butlast zeros)
                   else (src_val, zeros))
            in Inr (write_int c (dst + int offset)
                      (strcpy_wrap c src dst_val (rev zeros') src_val'), zeros')))"

text \<open>The loop \<^verbatim>\<open>for offset in range(null, -1, -1)\<close>.\<close>

fun strcpy_tail :: "Cpu \<Rightarrow> int \<Rightarrow> int \<Rightarrow> nat \<Rightarrow> nat list \<Rightarrow> (error \<times> Cpu) + Cpu" where
  "strcpy_tail c dst src 0 zeros =
     (case strcpy_tail_step c dst src 0 zeros of
        Inl e \<Rightarrow> Inl e
      | Inr (c', zeros') \<Rightarrow> Inr c')"
| "strcpy_tail c dst src (Suc offset) zeros =
     (case strcpy_tail_step c dst src (Suc offset) zeros of
        Inl e \<Rightarrow> Inl e
      | Inr (c', zeros') \<Rightarrow> strcpy_tail c' dst src offset zeros')"

definition strcpy :: "State \<Rightarrow> val \<Rightarrow> val \<Rightarrow> val outcome" where
  "strcpy state dst src =
     (case src of
        Symbolic e \<Rightarrow> Some (Inl (ConcretizeArgument 1), state)
      | Concrete src0 \<Rightarrow>
     (case dst of
        Symbolic e \<Rightarrow> Some (Inl (ConcretizeArgument 2), state)
      | Concrete dst0 \<Rightarrow>
     (case strcpy_copy (cpu state) (constraints state) dst0 src0 (read_int (cpu state) src0) of
        None \<Rightarrow> None
      | Some (c1, dst1, src1, ch) \<Rightarrow>
          if is_NULL ch (constraints state)
          then Some (Inr (Concrete dst0), state\<lparr>cpu := write_int c1 dst1 (Concrete 0)\<rparr>)
          else
            (case find_zeros c1 (constraints state) src1 of
               None \<Rightarrow> None
             | Some zeros \<Rightarrow>
                 if zeros = [] then Some (Inl IndexError, state\<lparr>cpu := c1\<rparr>)
                 else
                   (case strcpy_tail c1 dst1 src1 (last zeros) zeros of
                      Inl (e, c2) \<Rightarrow> Some (Inl e, state\<lparr>cpu := c2\<rparr>)
                    | Inr c2 \<Rightarrow> Some (Inr (Concrete dst0), state\<lparr>cpu := c2\<rparr>))))))"

section \<open>Example states\<close>

text \<open>A constraint set that no assignment satisfies.\<close>

definition unsat_constrs :: constraint_set where
  "unsat_constrs = [Equal (Constant 8 0) (Constant 8 1)]"

text \<open>The bytes 1, 1, 0 at address 0 (every other byte is 1), and a memory with no zero
  byte at all.\<close>

definition cpu_ab0 :: Cpu where
  "cpu_ab0 = \<lparr>memory = (\<lambda>a. Concrete 1)(2 := Concrete 0), address_bit_size = 64\<rparr>"

definition cpu_ones :: Cpu where
  "cpu_ones = \<lparr>memory = (\<lambda>a. Concrete 1), address_bit_size = 64\<rparr>"

text \<open>A memory whose every byte is the symbolic byte \<open>Variable 8 0\<close>.\<close>

definition cpu_sym :: Cpu where
  "cpu_sym = \<lparr>memory = (\<lambda>a. Symbolic (Variable 8 0)), address_bit_size = 64\<rparr>"

text \<open>An unconstrained symbolic byte at address 0, followed by a zero byte; every other
  byte is 1.\<close>

definition cpu_amb :: Cpu where
  "cpu_amb = \<lparr>memory = (\<lambda>a. Concrete 1)(0 := Symbolic (Variable 8 0), 1 := Concrete 0),
     address_bit_size = 64\<rparr>"

definition state_amb :: State where
  "state_amb = \<lparr>cpu = cpu_amb, constraints = []\<rparr>"

section \<open>Reference semantics\<close>

text \<open>The byte at address \<open>a\<close> is the concrete byte \<open>n\<close>.\<close>

definition concrete_byte :: "Cpu \<Rightarrow> int \<Rightarrow> int \<Rightarrow> bool" where
  "concrete_byte c a n = (read_int c a = Concrete n \<and> 0 \<le> n \<and> n < 256)"

text \<open>Modelled from the spec: the reference (libc-style) \<^verbatim>\<open>strcmp\<close> on a memory of concrete bytes, the
  difference of the bytes at the first offset where the strings differ, 0 when they agree
  up to and including a zero byte.  It does not return on strings that agree for ever.\<close>

partial_function (option) libc_strcmp :: "(int \<Rightarrow> int) \<Rightarrow> int \<Rightarrow> int \<Rightarrow> int option" where
  "libc_strcmp m s1 s2 =
     (if m s1 \<noteq> m s2 then Some (m s1 - m s2)
      else if m s1 = 0 then Some 0
      else libc_strcmp m (s1 + 1) (s2 + 1))"

text \<open>The memory of concrete bytes that a CPU holds under an assignment.\<close>

definition concretize :: "assignment \<Rightarrow> Cpu \<Rightarrow> int \<Rightarrow> int" where
  "concretize \<sigma> c a = val_eval \<sigma> (read_int c a)"

text \<open>The string \<^verbatim>\<open>"a"\<close> at address 0 in a memory of zero bytes.\<close>

definition cpu_a0 :: Cpu where
  "cpu_a0 = \<lparr>memory = (\<lambda>a. Concrete 0)(0 := Concrete 97), address_bit_size = 64\<rparr>"

definition state_a0 :: State where
  "state_a0 = \<lparr>cpu = cpu_a0, constraints = []\<rparr>"

text \<open>The strings \<^verbatim>\<open>"abc"\<close> at address 0 and \<^verbatim>\<open>"abd"\<close> at address 10 in a memory of zero
  bytes, as a function from addresses to bytes and as a state.\<close>

definition mem_abc :: "int \<Rightarrow> int" where
  "mem_abc = (\<lambda>a. 0)(0 := 97, 1 := 98, 2 := 99, 10 := 97, 11 := 98, 12 := 100)"

definition state_abc :: State where
  "state_abc = \<lparr>cpu = \<lparr>memory = (\<lambda>a. Concrete (mem_abc a)), address_bit_size = 64\<rparr>,
                 constraints = []\<rparr>"

text \<open>The strings \<^verbatim>\<open>"ab?"\<close> at address 0 and \<^verbatim>\<open>"ac?"\<close> at address 10, where \<^verbatim>\<open>?\<close> is
  the unconstrained symbolic byte \<open>Variable 8 0\<close>, in a memory of zero bytes.\<close>

definition cpu_mix :: Cpu where
  "cpu_mix = \<lparr>memory = (\<lambda>a. Concrete 0)(0 := Concrete 97, 1 := Concrete 98,
                 2 := Symbolic (Variable 8 0), 10 := Concrete 97, 11 := Concrete 99,
                 12 := Symbolic (Variable 8 0)),
               address_bit_size = 64\<rparr>"

definition state_mix :: State where
  "state_mix = \<lparr>cpu = cpu_mix, constraints = []\<rparr>"

section \<open>The solver oracle and the classifier\<close>

lemma not_satisfies_unsat: "\<not> satisfies \<sigma> unsat_constrs"
  by (simp add: satisfies_def unsat_constrs_def)

lemma can_be_true_unsat: "\<not> can_be_true unsat_constrs e"
  by (simp add: can_be_true_def not_satisfies_unsat)

lemma satisfiable_Nil: "satisfiable []"
  by (simp add: satisfiable_def satisfies_def)

lemma sat_not_both:
  "satisfiable constrs \<Longrightarrow>
   \<not> (\<not> can_be_true constrs (ne_zero e) \<and> \<not> can_be_true constrs (eq_zero e))"
  by (auto simp: satisfiable_def can_be_true_def ne_zero_def eq_zero_def)

text \<open>C4, as the specification states it, fails: under a constraint set that no assignment
  satisfies, both feasibility queries on a symbolic byte answer "infeasible", so
  \<open>is_NULL\<close> and \<open>not_NULL\<close> both hold.\<close>

theorem classifier_both_true_unsat:
  "is_NULL (Symbolic (Variable 8 0)) unsat_constrs \<and>
   not_NULL (Symbolic (Variable 8 0)) unsat_constrs"
  by (simp add: is_NULL_def not_NULL_def can_be_true_unsat)

text \<open>C4 (amended): for every concrete byte, and for every symbolic byte under a
  satisfiable constraint set, \<open>is_NULL\<close> and \<open>not_NULL\<close> are never both true.\<close>

theorem classifier_exclusive:
  "\<not> issymbolic byte \<or> satisfiable constrs \<Longrightarrow>
   \<not> (is_NULL byte constrs \<and> not_NULL byte constrs)"
  using sat_not_both by (cases byte) (auto simp: is_NULL_def not_NULL_def)

theorem classifier_exclusive_witness:
  "satisfiable [] \<and>
   \<not> (is_NULL (Symbolic (Variable 8 0)) [] \<and> not_NULL (Symbolic (Variable 8 0)) [])"
  using classifier_exclusive [of "Symbolic (Variable 8 0)" "[]"] satisfiable_Nil by simp

section \<open>The scan for the first definite zero\<close>

lemma find_zero_from_unfold:
  "find_zero_from c constrs ptr offset =
     (if is_NULL (read_int c (ptr + int offset)) constrs then Some offset
      else find_zero_from c constrs ptr (offset + 1))"
  by (subst find_zero_from.simps) (simp add: is_NULL_def split: val.splits)

lemma find_zero_from_found:
  "is_NULL (read_int c (ptr + int (offset + n))) constrs \<Longrightarrow>
   (\<forall>j<n. \<not> is_NULL (read_int c (ptr + int (offset + j))) constrs) \<Longrightarrow>
   find_zero_from c constrs ptr offset = Some (offset + n)"
proof (induction n arbitrary: offset)
  case 0
  then show ?case by (subst find_zero_from_unfold) simp
next
  case (Suc n)
  have nz: "\<not> is_NULL (read_int c (ptr + int offset)) constrs"
    using Suc.prems(2) by (metis add.right_neutral zero_less_Suc)
  have "find_zero_from c constrs ptr (offset + 1) = Some (offset + 1 + n)"
  proof (rule Suc.IH)
    show "is_NULL (read_int c (ptr + int (offset + 1 + n))) constrs"
      using Suc.prems(1) by (simp add: add.commute add.left_commute)
    show "\<forall>j<n. \<not> is_NULL (read_int c (ptr + int (offset + 1 + j))) constrs"
    proof (intro allI impI)
      fix j assume "j < n"
      then have "Suc j < Suc n" by simp
      with Suc.prems(2) have "\<not> is_NULL (read_int c (ptr + int (offset + Suc j))) constrs"
        by blast
      then show "\<not> is_NULL (read_int c (ptr + int (offset + 1 + j))) constrs" by simp
    qed
  qed
  with nz show ?case by (subst find_zero_from_unfold) simp
qed

text \<open>A scan that returns has stopped on a definitely-null byte, at or after its start,
  and has passed only bytes that are not definitely null.\<close>

lemma find_zero_from_Some:
  assumes "find_zero_from c constrs ptr offset = Some r"
  shows "offset \<le> r \<and> is_NULL (read_int c (ptr + int r)) constrs \<and>
         (\<forall>j. offset \<le> j \<and> j < r \<longrightarrow> \<not> is_NULL (read_int c (ptr + int j)) constrs)"
proof (rule find_zero_from.raw_induct
    [where P = "\<lambda>c constrs ptr offset r.
        offset \<le> r \<and> is_NULL (read_int c (ptr + int r)) constrs \<and>
        (\<forall>j. offset \<le> j \<and> j < r \<longrightarrow> \<not> is_NULL (read_int c (ptr + int j)) constrs)",
      OF _ assms])
  fix f :: "Cpu \<Rightarrow> constraint_set \<Rightarrow> int \<Rightarrow> nat \<Rightarrow> nat option"
    and c constrs ptr offset r
  assume IH: "\<And>c constrs ptr offset r. f c constrs ptr offset = Some r \<Longrightarrow>
        offset \<le> r \<and> is_NULL (read_int c (ptr + int r)) constrs \<and>
        (\<forall>j. offset \<le> j \<and> j < r \<longrightarrow> \<not> is_NULL (read_int c (ptr + int j)) constrs)"
  assume step: "(case read_int c (ptr + int offset) of
      Concrete n \<Rightarrow> if n = 0 then Some offset else f c constrs ptr (offset + 1)
    | Symbolic e \<Rightarrow> if \<not> can_be_true constrs (ne_zero e) then Some offset
        else f c constrs ptr (offset + 1)) = Some r"
  show "offset \<le> r \<and> is_NULL (read_int c (ptr + int r)) constrs \<and>
        (\<forall>j. offset \<le> j \<and> j < r \<longrightarrow> \<not> is_NULL (read_int c (ptr + int j)) constrs)"
  proof (cases "is_NULL (read_int c (ptr + int offset)) constrs")
    case True
    with step have "r = offset"
      by (auto simp: is_NULL_def split: val.splits if_splits)
    with True show ?thesis by auto
  next
    case False
    with step have "f c constrs ptr (offset + 1) = Some r"
      by (auto simp: is_NULL_def split: val.splits if_splits)
    from IH[OF this] have b: "offset + 1 \<le> r"
      and n: "is_NULL (read_int c (ptr + int r)) constrs"
      and p: "\<forall>j. offset + 1 \<le> j \<and> j < r \<longrightarrow> \<not> is_NULL (read_int c (ptr + int j)) constrs"
      by blast+
    have "\<not> is_NULL (read_int c (ptr + int j)) constrs" if "offset \<le> j" "j < r" for j
    proof (cases "j = offset")
      case True
      with False show ?thesis by simp
    next
      case False
      with that have "offset + 1 \<le> j" by simp
      with p that show ?thesis by blast
    qed
    with b n show ?thesis by auto
  qed
qed

lemma find_zero_from_diverges:
  assumes "\<forall>j. \<not> is_NULL (read_int c (ptr + int j)) constrs"
  shows "find_zero_from c constrs ptr offset = None"
proof (cases "find_zero_from c constrs ptr offset")
  case None
  then show ?thesis .
next
  case (Some r)
  from find_zero_from_Some[OF this] assms show ?thesis by blast
qed

text \<open>C6: if the byte at offset \<open>n\<close> is definitely null and every byte at a smaller offset
  is not, \<open>find_zero\<close> returns exactly \<open>n\<close>; if no offset holds a definitely-null byte,
  the scan does not return.\<close>

theorem find_zero_first_definite_null:
  "(is_NULL (read_int c (ptr + int n)) constrs \<and>
    (\<forall>j<n. \<not> is_NULL (read_int c (ptr + int j)) constrs)
      \<longrightarrow> find_zero c constrs ptr = Some n) \<and>
   ((\<forall>j. \<not> is_NULL (read_int c (ptr + int j)) constrs)
      \<longrightarrow> find_zero c constrs ptr = None)"
  unfolding find_zero_def
  using find_zero_from_found [of c ptr 0 n constrs] find_zero_from_diverges [of c ptr constrs 0]
  by simp

theorem find_zero_first_definite_null_witness:
  "find_zero cpu_ab0 [] 0 = Some 2 \<and> find_zero cpu_ones [] 0 = None"
proof -
  have a: "is_NULL (read_int cpu_ab0 (0 + int 2)) [] \<and>
    (\<forall>j<2. \<not> is_NULL (read_int cpu_ab0 (0 + int j)) [])"
    by (simp add: is_NULL_def read_int_def cpu_ab0_def)
  have b: "\<forall>j. \<not> is_NULL (read_int cpu_ones (0 + int j)) []"
    by (simp add: is_NULL_def read_int_def cpu_ones_def)
  from a find_zero_first_definite_null [of cpu_ab0 0 2 "[]"]
  have "find_zero cpu_ab0 [] 0 = Some 2" by blast
  moreover from b find_zero_first_definite_null [of cpu_ones 0 0 "[]"]
  have "find_zero cpu_ones [] 0 = None" by blast
  ultimately show ?thesis by simp
qed

section \<open>The scan for the possible zeros\<close>

lemma is_NULL_not_not_NULL:
  "satisfiable constrs \<or> \<not> issymbolic byte \<Longrightarrow> is_NULL byte constrs \<Longrightarrow> \<not> not_NULL byte constrs"
  using sat_not_both by (cases byte) (auto simp: is_NULL_def not_NULL_def)

lemma find_zeros_from_unfold:
  "find_zeros_from c constrs ptr offset can_be_zero =
     (if is_NULL (read_int c (ptr + int offset)) constrs
      then Some (if not_NULL (read_int c (ptr + int offset)) constrs then can_be_zero
                 else can_be_zero @ [offset])
      else find_zeros_from c constrs ptr (offset + 1)
             (if not_NULL (read_int c (ptr + int offset)) constrs then can_be_zero
              else can_be_zero @ [offset]))"
  by (subst find_zeros_from.simps) (simp add: is_NULL_def not_NULL_def split: val.splits)

lemma find_zeros_from_found:
  "is_NULL (read_int c (ptr + int (offset + n))) constrs \<Longrightarrow>
   (\<forall>j<n. \<not> is_NULL (read_int c (ptr + int (offset + j))) constrs) \<Longrightarrow>
   find_zeros_from c constrs ptr offset acc =
     Some (acc @ filter (\<lambda>j. \<not> not_NULL (read_int c (ptr + int j)) constrs)
                    [offset..<offset + n + 1])"
proof (induction n arbitrary: offset acc)
  case 0
  then show ?case by (subst find_zeros_from_unfold) simp
next
  case (Suc n)
  have nz: "\<not> is_NULL (read_int c (ptr + int offset)) constrs"
    using Suc.prems(2) by (metis add.right_neutral zero_less_Suc)
  have a: "is_NULL (read_int c (ptr + int (offset + 1 + n))) constrs"
    using Suc.prems(1) by (simp add: add.commute add.left_commute)
  have b: "\<forall>j<n. \<not> is_NULL (read_int c (ptr + int (offset + 1 + j))) constrs"
  proof (intro allI impI)
    fix j assume "j < n"
    then have "Suc j < Suc n" by simp
    with Suc.prems(2) have "\<not> is_NULL (read_int c (ptr + int (offset + Suc j))) constrs"
      by blast
    then show "\<not> is_NULL (read_int c (ptr + int (offset + 1 + j))) constrs" by simp
  qed
  have up: "[offset..<offset + Suc n + 1] = offset # [offset + 1..<offset + 1 + n + 1]"
    by (simp add: upt_conv_Cons)
  show ?case
    by (subst find_zeros_from_unfold) (simp only: nz if_False Suc.IH[OF a b] up, simp)
qed

text \<open>C5, as the specification states it, fails: under an unsatisfiable constraint
  set the symbolic byte that stops the scan is not appended, so the list is empty while
  \<open>find_zero\<close> returns offset 0.\<close>

theorem find_zeros_misses_terminator_unsat:
  "find_zero cpu_sym unsat_constrs 0 = Some 0 \<and> find_zeros cpu_sym unsat_constrs 0 = Some []"
proof -
  have "find_zero cpu_sym unsat_constrs 0 = Some 0"
    unfolding find_zero_def
    by (subst find_zero_from.simps) (simp add: read_int_def cpu_sym_def can_be_true_unsat)
  moreover have "find_zeros cpu_sym unsat_constrs 0 = Some []"
    unfolding find_zeros_def
    by (subst find_zeros_from.simps) (simp add: read_int_def cpu_sym_def can_be_true_unsat)
  ultimately show ?thesis by simp
qed

text \<open>C5 (amended): when the constraint set is satisfiable, or the byte that stops the
  scan is concrete, and \<open>find_zero\<close> returns \<open>n\<close>, then \<open>find_zeros\<close> returns a
  non-empty, strictly increasing list of offsets whose last element is \<open>n\<close>.\<close>

theorem find_zeros_increasing_last:
  assumes "satisfiable constrs \<or> \<not> issymbolic (read_int c (ptr + int n))"
    and "find_zero c constrs ptr = Some n"
  shows "\<exists>zs. find_zeros c constrs ptr = Some zs \<and> zs \<noteq> [] \<and> sorted_wrt (<) zs \<and> last zs = n"
proof -
  let ?P = "\<lambda>j. \<not> not_NULL (read_int c (ptr + int j)) constrs"
  from assms(2) have fz: "find_zero_from c constrs ptr 0 = Some n"
    by (simp add: find_zero_def)
  from find_zero_from_Some[OF fz]
  have n: "is_NULL (read_int c (ptr + int n)) constrs"
    and p: "\<forall>j<n. \<not> is_NULL (read_int c (ptr + int j)) constrs"
    by auto
  from find_zeros_from_found[of c ptr 0 n constrs "[]"] n p
  have eq: "find_zeros c constrs ptr = Some (filter ?P [0..<n + 1])"
    by (simp add: find_zeros_def)
  from is_NULL_not_not_NULL[OF assms(1) n] have Pn: "?P n" .
  then have split: "filter ?P [0..<n + 1] = filter ?P [0..<n] @ [n]" by simp
  have "sorted_wrt (<) (filter ?P [0..<n + 1])"
    by (rule sorted_wrt_filter) (rule sorted_wrt_upt)
  moreover have "filter ?P [0..<n + 1] \<noteq> []" "last (filter ?P [0..<n + 1]) = n"
    unfolding split by simp_all
  ultimately show ?thesis using eq by blast
qed

theorem find_zeros_increasing_last_witness:
  "\<exists>zs. find_zeros cpu_ab0 [] 0 = Some zs \<and> zs \<noteq> [] \<and> sorted_wrt (<) zs \<and> last zs = 2"
proof -
  have a: "is_NULL (read_int cpu_ab0 (0 + int 2)) [] \<and>
    (\<forall>j<2. \<not> is_NULL (read_int cpu_ab0 (0 + int j)) [])"
    by (simp add: is_NULL_def read_int_def cpu_ab0_def)
  with find_zero_from_found [of cpu_ab0 0 0 2 "[]"]
  have "find_zero cpu_ab0 [] 0 = Some 2"
    by (simp add: find_zero_def)
  moreover have "satisfiable [] \<or> \<not> issymbolic (read_int cpu_ab0 (0 + int 2))"
    by (simp add: satisfiable_Nil)
  ultimately show ?thesis
    by (rule find_zeros_increasing_last [rotated])
qed


lemma find_zeros_from_prefix:
  assumes "find_zeros_from c constrs ptr offset acc = Some zs"
  shows "\<exists>ys. zs = acc @ ys"
proof (rule find_zeros_from.raw_induct
    [where P = "\<lambda>c constrs ptr offset acc zs. \<exists>ys. zs = acc @ ys", OF _ assms])
  fix f :: "Cpu \<Rightarrow> constraint_set \<Rightarrow> int \<Rightarrow> nat \<Rightarrow> nat list \<Rightarrow> nat list option"
    and c constrs ptr offset and acc zs :: "nat list"
  assume IH: "\<And>c constrs ptr offset acc zs. f c constrs ptr offset acc = Some zs \<Longrightarrow>
                \<exists>ys. zs = acc @ ys"
  assume step: "(case read_int c (ptr + int offset) of
        Concrete n \<Rightarrow>
          if n = 0 then Some (acc @ [offset])
          else f c constrs ptr (offset + 1) acc
      | Symbolic e \<Rightarrow>
          if \<not> can_be_true constrs (ne_zero e)
          then Some (if can_be_true constrs (eq_zero e) then acc @ [offset] else acc)
          else f c constrs ptr (offset + 1)
                 (if can_be_true constrs (eq_zero e) then acc @ [offset] else acc)) = Some zs"
  show "\<exists>ys. zs = acc @ ys"
  proof (cases "read_int c (ptr + int offset)")
    case (Concrete n)
    with step IH[of c constrs ptr "offset + 1" acc zs] show ?thesis
      by (auto split: if_splits)
  next
    case (Symbolic e)
    with step IH[of c constrs ptr "offset + 1" acc zs]
      IH[of c constrs ptr "offset + 1" "acc @ [offset]" zs] show ?thesis
      by (auto split: if_splits)
  qed
qed

lemma find_zeros_ambiguous_head:
  assumes "\<not> not_NULL (read_int c src) constrs" and "\<not> is_NULL (read_int c src) constrs"
    and "find_zeros c constrs src = Some zeros"
  shows "zeros \<noteq> [] \<and> hd zeros = 0"
proof -
  from assms have "find_zeros_from c constrs src 1 [0] = Some zeros"
    unfolding find_zeros_def by (subst (asm) find_zeros_from_unfold) simp
  from find_zeros_from_prefix[OF this] show ?thesis by auto
qed

section \<open>The list of zeros in strcpy\<close>

lemma strcpy_tail_step_ok:
  "zeros \<noteq> [] \<Longrightarrow> \<exists>c'. strcpy_tail_step c dst src offset zeros =
      Inr (c', if last zeros = offset then butlast zeros else zeros)"
  by (simp add: strcpy_tail_step_def Let_def)

lemma strcpy_tail_no_IndexError:
  "zeros \<noteq> [] \<Longrightarrow> hd zeros = 0 \<Longrightarrow> \<exists>c'. strcpy_tail c dst src offset zeros = Inr c'"
proof (induction offset arbitrary: c zeros)
  case 0
  from strcpy_tail_step_ok[OF 0(1), of c dst src 0] show ?case by auto
next
  case (Suc offset)
  let ?zs = "if last zeros = Suc offset then butlast zeros else zeros"
  from strcpy_tail_step_ok[OF Suc.prems(1), of c dst src "Suc offset"]
  obtain c' where st: "strcpy_tail_step c dst src (Suc offset) zeros = Inr (c', ?zs)" by blast
  have "?zs \<noteq> [] \<and> hd ?zs = 0"
  proof (cases "last zeros = Suc offset")
    case False
    with Suc.prems show ?thesis by simp
  next
    case True
    from Suc.prems obtain z zs where z: "zeros = z # zs" by (cases zeros) auto
    with Suc.prems have "z = 0" by simp
    with True z have "zs \<noteq> []" by auto
    with z \<open>z = 0\<close> True show ?thesis by simp
  qed
  then obtain c'' where "strcpy_tail c' dst src offset ?zs = Inr c''"
    using Suc.IH by blast
  with st show ?case by simp
qed

lemma strcpy_copy_Some:
  assumes "strcpy_copy c constrs dst src ch = Some res"
  shows "ch = read_int c src \<longrightarrow>
         (case res of (c1, dst1, src1, ch1) \<Rightarrow> ch1 = read_int c1 src1 \<and> \<not> not_NULL ch1 constrs
             \<and> address_bit_size c1 = address_bit_size c)"
proof (rule strcpy_copy.raw_induct
    [where P = "\<lambda>c constrs dst src ch res. ch = read_int c src \<longrightarrow>
         (case res of (c1, dst1, src1, ch1) \<Rightarrow> ch1 = read_int c1 src1 \<and> \<not> not_NULL ch1 constrs
             \<and> address_bit_size c1 = address_bit_size c)", OF _ assms])
  fix f :: "Cpu \<Rightarrow> constraint_set \<Rightarrow> int \<Rightarrow> int \<Rightarrow> val \<Rightarrow> (Cpu \<times> int \<times> int \<times> val) option"
    and c constrs dst src ch res
  assume IH: "\<And>c constrs dst src ch res. f c constrs dst src ch = Some res \<Longrightarrow>
       ch = read_int c src \<longrightarrow>
         (case res of (c1, dst1, src1, ch1) \<Rightarrow> ch1 = read_int c1 src1 \<and> \<not> not_NULL ch1 constrs
             \<and> address_bit_size c1 = address_bit_size c)"
  assume step: "(if not_NULL ch constrs
      then f (write_int c dst ch) constrs (dst + 1) (src + 1)
             (read_int (write_int c dst ch) (src + 1))
      else Some (c, dst, src, ch)) = Some res"
  show "ch = read_int c src \<longrightarrow>
         (case res of (c1, dst1, src1, ch1) \<Rightarrow> ch1 = read_int c1 src1 \<and> \<not> not_NULL ch1 constrs
             \<and> address_bit_size c1 = address_bit_size c)"
  proof (cases "not_NULL ch constrs")
    case True
    with step have "f (write_int c dst ch) constrs (dst + 1) (src + 1)
             (read_int (write_int c dst ch) (src + 1)) = Some res" by simp
    from IH[OF this] show ?thesis by (auto simp: write_int_def)
  next
    case False
    with step show ?thesis by auto
  qed
qed

text \<open>C10: when the byte at the current source position is neither definitely non-null
  nor definitely null, the list that \<open>find_zeros\<close> returns from that position is not empty
  and starts with offset 0; and no call of \<open>strcpy\<close> ends in an \<open>IndexError\<close>, so the
  accesses \<^verbatim>\<open>zeros[-1]\<close> and \<^verbatim>\<open>zeros.pop()\<close> never fail.\<close>

theorem strcpy_zeros_never_empty:
  "(\<not> not_NULL (read_int c src) constrs \<and> \<not> is_NULL (read_int c src) constrs \<and>
    find_zeros c constrs src = Some zeros \<longrightarrow> zeros \<noteq> [] \<and> hd zeros = 0) \<and>
   strcpy state dst' src' \<noteq> Some (Inl IndexError, state')"
proof
  show "\<not> not_NULL (read_int c src) constrs \<and> \<not> is_NULL (read_int c src) constrs \<and>
    find_zeros c constrs src = Some zeros \<longrightarrow> zeros \<noteq> [] \<and> hd zeros = 0"
    using find_zeros_ambiguous_head by blast
next
  show "strcpy state dst' src' \<noteq> Some (Inl IndexError, state')"
  proof
    assume a: "strcpy state dst' src' = Some (Inl IndexError, state')"
    then obtain s0 d0 where sd: "src' = Concrete s0" "dst' = Concrete d0"
      by (cases src'; cases dst') (auto simp: strcpy_def)
    from a sd obtain c1 dst1 src1 ch where
      cp: "strcpy_copy (cpu state) (constraints state) d0 s0 (read_int (cpu state) s0)
            = Some (c1, dst1, src1, ch)"
      by (auto simp: strcpy_def split: option.splits)
    from strcpy_copy_Some[OF cp]
    have ch: "ch = read_int c1 src1" "\<not> not_NULL ch (constraints state)" by auto
    from a sd cp have nn: "\<not> is_NULL ch (constraints state)"
      by (auto simp: strcpy_def split: if_splits)
    from a sd cp nn obtain zeros where
      fz: "find_zeros c1 (constraints state) src1 = Some zeros"
      by (auto simp: strcpy_def split: option.splits)
    from find_zeros_ambiguous_head[OF _ _ fz] ch nn
    have z: "zeros \<noteq> []" "hd zeros = 0" by auto
    from strcpy_tail_no_IndexError[OF z] obtain c2 where
      "strcpy_tail c1 dst1 src1 (last zeros) zeros = Inr c2" by blast
    with a sd cp nn fz z show False
      by (simp add: strcpy_def)
  qed
qed

subsection \<open>Examples with an ambiguous byte\<close>

lemma can_be_zero_Variable: "can_be_true [] (eq_zero (Variable 8 0))"
  unfolding can_be_true_def satisfies_def eq_zero_def
  by (rule exI[of _ "\<lambda>_. 0"]) simp

lemma can_be_nonzero_Variable: "can_be_true [] (ne_zero (Variable 8 0))"
  unfolding can_be_true_def satisfies_def ne_zero_def
  by (rule exI[of _ "\<lambda>_. 1"]) simp

lemma cpu_amb_ambiguous:
  "\<not> not_NULL (read_int cpu_amb 0) [] \<and> \<not> is_NULL (read_int cpu_amb 0) []"
  by (simp add: cpu_amb_def read_int_def not_NULL_def is_NULL_def
      can_be_zero_Variable can_be_nonzero_Variable)

lemma find_zeros_cpu_amb: "find_zeros cpu_amb [] 0 = Some [0, 1]"
proof -
  have a: "is_NULL (read_int cpu_amb (0 + int (0 + 1))) []"
    by (simp add: cpu_amb_def read_int_def is_NULL_def)
  have b: "\<forall>j<1. \<not> is_NULL (read_int cpu_amb (0 + int (0 + j))) []"
    using cpu_amb_ambiguous by simp
  have c: "\<not> not_NULL (read_int cpu_amb 1) []"
    by (simp add: cpu_amb_def read_int_def not_NULL_def)
  have "[0..<2] = [0, Suc 0]" by (simp add: upt_conv_Cons)
  with find_zeros_from_found[OF a b, of "[]"] cpu_amb_ambiguous c show ?thesis
    by (simp add: find_zeros_def)
qed

theorem strcpy_zeros_never_empty_witness:
  "\<not> not_NULL (read_int cpu_amb 0) [] \<and> \<not> is_NULL (read_int cpu_amb 0) [] \<and>
   find_zeros cpu_amb [] 0 = Some [0, 1] \<and> [0, 1::nat] \<noteq> [] \<and> hd [0, 1::nat] = 0 \<and>
   strcpy state_amb (Concrete 10) (Concrete 0) \<noteq> Some (Inl IndexError, state_amb)"
  using strcpy_zeros_never_empty [of cpu_amb 0 "[]" "[0, 1]" state_amb "Concrete 10" "Concrete 0" state_amb]
    cpu_amb_ambiguous find_zeros_cpu_amb
  by simp

section \<open>The concretization signal\<close>

text \<open>C3: what each model does with a symbolic pointer.  The state is returned as it was
  given, so no write has happened.  \<open>strcmp\<close> and \<open>strlen\<close> signal the position of the
  symbolic argument (the state is argument 0); \<open>strcpy\<close>, whose signature is
  \<^verbatim>\<open>strcpy(state, dst, src)\<close>, signals 1 for a symbolic \<open>src\<close> (position 2) and 2
  for a symbolic \<open>dst\<close> (position 1).\<close>

theorem concretize_signals:
  "strcmp state (Symbolic e) s2 = Some (Inl (ConcretizeArgument 1), state) \<and>
   strcmp state (Concrete p) (Symbolic e) = Some (Inl (ConcretizeArgument 2), state) \<and>
   strlen state (Symbolic e) = Some (Inl (ConcretizeArgument 1), state) \<and>
   strcpy state dst (Symbolic e) = Some (Inl (ConcretizeArgument 1), state) \<and>
   strcpy state (Symbolic e) (Concrete p) = Some (Inl (ConcretizeArgument 2), state)"
  by (simp add: strcmp_def strlen_def strcpy_def)

section \<open>The models on concrete bytes\<close>

lemma pow_ge_256: "8 \<le> w \<Longrightarrow> (256::int) \<le> 2 ^ w"
proof -
  assume "8 \<le> w"
  then have "(2::int) ^ 8 \<le> 2 ^ w" by (rule power_increasing) simp
  then show ?thesis by simp
qed

lemma ZEXTEND_concrete_byte:
  "8 \<le> w \<Longrightarrow> 0 \<le> n \<Longrightarrow> n < 256 \<Longrightarrow> ZEXTEND (Concrete n) w = Concrete n"
  using pow_ge_256[of w] by simp

lemma is_NULL_Concrete [simp]: "is_NULL (Concrete n) constrs = (n = 0)"
  by (simp add: is_NULL_def)

lemma not_NULL_Concrete [simp]: "not_NULL (Concrete n) constrs = (n \<noteq> 0)"
  by (simp add: not_NULL_def)

subsection \<open>strlen on concrete bytes\<close>

lemma strlen_walk_concrete:
  "(\<forall>j<k. \<not> issymbolic (read_int c (s + int j))) \<Longrightarrow> strlen_walk c s k ret = ret"
  by (induction k arbitrary: ret) (simp_all add: Let_def)

subsection \<open>strcmp on concrete bytes\<close>

lemma strcmp_step_concrete:
  assumes "concrete_byte c (s1 + int offset) a" and "concrete_byte c (s2 + int offset) b"
    and "8 \<le> address_bit_size c"
  shows "strcmp_step c s1 s2 offset ret =
     (if a \<noteq> b then Some (Concrete (a - b))
      else (case ret of None \<Rightarrow> Some (Concrete 0) | Some r \<Rightarrow> Some r))"
proof -
  from assms have ra: "read_int c (s1 + int offset) = Concrete a"
    and rb: "read_int c (s2 + int offset) = Concrete b"
    by (simp_all add: concrete_byte_def)
  from assms have "ZEXTEND (Concrete a) (address_bit_size c) = Concrete a"
    and "ZEXTEND (Concrete b) (address_bit_size c) = Concrete b"
    by (simp_all only: concrete_byte_def ZEXTEND_concrete_byte)
  then show ?thesis
    unfolding strcmp_step_def ra rb by (simp add: Let_def)
qed

lemma strcmp_walk_equal:
  assumes "\<forall>j\<le>n. \<exists>a. concrete_byte c (s1 + int j) a \<and> concrete_byte c (s2 + int j) a"
    and "8 \<le> address_bit_size c"
  shows "strcmp_walk c s1 s2 n ret = (case ret of None \<Rightarrow> Some (Concrete 0) | Some r \<Rightarrow> Some r)"
  using assms(1)
proof (induction n arbitrary: ret)
  case 0
  then obtain a where "concrete_byte c (s1 + int 0) a" "concrete_byte c (s2 + int 0) a"
    by blast
  from strcmp_step_concrete[OF this assms(2)] show ?case by simp
next
  case (Suc n)
  from Suc.prems obtain a where
    "concrete_byte c (s1 + int (Suc n)) a" "concrete_byte c (s2 + int (Suc n)) a"
    by blast
  from strcmp_step_concrete[OF this assms(2)]
  have st: "strcmp_step c s1 s2 (Suc n) ret =
      (case ret of None \<Rightarrow> Some (Concrete 0) | Some r \<Rightarrow> Some r)" by simp
  from Suc.prems have "\<forall>j\<le>n. \<exists>a. concrete_byte c (s1 + int j) a \<and> concrete_byte c (s2 + int j) a"
    by auto
  from Suc.IH[OF this] st show ?case by (simp split: option.splits)
qed

lemma strcmp_walk_first_diff:
  assumes "k \<le> n"
    and "concrete_byte c (s1 + int k) a" and "concrete_byte c (s2 + int k) b" and "a \<noteq> b"
    and "\<forall>j<k. \<exists>a. concrete_byte c (s1 + int j) a \<and> concrete_byte c (s2 + int j) a"
    and "8 \<le> address_bit_size c"
  shows "strcmp_walk c s1 s2 n ret = Some (Concrete (a - b))"
  using assms(1)
proof (induction n arbitrary: ret)
  case 0
  then have "k = 0" by simp
  with strcmp_step_concrete[OF assms(2,3,6)] assms(4) show ?case by simp
next
  case (Suc n)
  show ?case
  proof (cases "k = Suc n")
    case True
    with strcmp_step_concrete[OF assms(2,3,6)] assms(4)
    have st: "strcmp_step c s1 s2 (Suc n) ret = Some (Concrete (a - b))" by simp
    from assms(5) True
    have "\<forall>j\<le>n. \<exists>a. concrete_byte c (s1 + int j) a \<and> concrete_byte c (s2 + int j) a"
      by (simp add: less_Suc_eq_le)
    from strcmp_walk_equal[OF this assms(6)] st show ?thesis by simp
  next
    case False
    with Suc.prems have "k \<le> n" by simp
    from Suc.IH[OF this] show ?thesis by simp
  qed
qed

subsection \<open>The reference strcmp\<close>

lemma libc_strcmp_first_diff:
  "m (s1 + int k) \<noteq> m (s2 + int k) \<Longrightarrow>
   (\<forall>j<k. m (s1 + int j) = m (s2 + int j) \<and> m (s1 + int j) \<noteq> 0) \<Longrightarrow>
   libc_strcmp m s1 s2 = Some (m (s1 + int k) - m (s2 + int k))"
proof (induction k arbitrary: s1 s2)
  case 0
  then show ?case by (subst libc_strcmp.simps) simp
next
  case (Suc k)
  from Suc.prems(2) have h: "m s1 = m s2" "m s1 \<noteq> 0"
    by (metis add.right_neutral of_nat_0 zero_less_Suc)+
  have "libc_strcmp m (s1 + 1) (s2 + 1) = Some (m (s1 + 1 + int k) - m (s2 + 1 + int k))"
  proof (rule Suc.IH)
    show "m (s1 + 1 + int k) \<noteq> m (s2 + 1 + int k)"
      using Suc.prems(1) by (simp add: add.assoc add.commute[of 1])
    show "\<forall>j<k. m (s1 + 1 + int j) = m (s2 + 1 + int j) \<and> m (s1 + 1 + int j) \<noteq> 0"
    proof (intro allI impI)
      fix j assume "j < k"
      then have "Suc j < Suc k" by simp
      with Suc.prems(2) have "m (s1 + int (Suc j)) = m (s2 + int (Suc j)) \<and> m (s1 + int (Suc j)) \<noteq> 0"
        by blast
      then show "m (s1 + 1 + int j) = m (s2 + 1 + int j) \<and> m (s1 + 1 + int j) \<noteq> 0"
        by (simp add: add.assoc add.commute[of 1])
    qed
  qed
  with h show ?case
    by (subst libc_strcmp.simps) (simp add: add.assoc add.commute[of 1])
qed

lemma libc_strcmp_equal:
  "m (s1 + int n) = 0 \<Longrightarrow> (\<forall>j\<le>n. m (s1 + int j) = m (s2 + int j)) \<Longrightarrow>
   libc_strcmp m s1 s2 = Some 0"
proof (induction n arbitrary: s1 s2)
  case 0
  then show ?case by (subst libc_strcmp.simps) simp
next
  case (Suc n)
  from Suc.prems(2) have h: "m s1 = m s2"
    by (metis add.right_neutral of_nat_0 zero_le)
  have "libc_strcmp m (s1 + 1) (s2 + 1) = Some 0"
  proof (rule Suc.IH)
    show "m (s1 + 1 + int n) = 0"
      using Suc.prems(1) by (simp add: add.assoc add.commute[of 1])
    show "\<forall>j\<le>n. m (s1 + 1 + int j) = m (s2 + 1 + int j)"
    proof (intro allI impI)
      fix j assume "j \<le> n"
      then have "Suc j \<le> Suc n" by simp
      with Suc.prems(2) have "m (s1 + int (Suc j)) = m (s2 + int (Suc j))" by blast
      then show "m (s1 + 1 + int j) = m (s2 + 1 + int j)"
        by (simp add: add.assoc add.commute[of 1])
    qed
  qed
  with h show ?case by (subst libc_strcmp.simps) simp
qed

subsection \<open>Termination of the scan\<close>

lemma find_zero_terminates:
  assumes "is_NULL (read_int c (ptr + int n)) constrs"
  shows "\<exists>z\<le>n. find_zero c constrs ptr = Some z"
proof -
  let ?P = "\<lambda>j. is_NULL (read_int c (ptr + int j)) constrs"
  let ?z = "LEAST j. ?P j"
  from assms have "?P ?z" by (rule LeastI)
  moreover have "\<forall>j<?z. \<not> ?P j" using not_less_Least by blast
  ultimately have "find_zero c constrs ptr = Some ?z"
    using find_zero_from_found[of c ptr 0 ?z constrs] by (simp add: find_zero_def)
  moreover from assms have "?z \<le> n" by (rule Least_le)
  ultimately show ?thesis by blast
qed

lemma find_zero_SomeD:
  assumes "find_zero c constrs ptr = Some z"
  shows "is_NULL (read_int c (ptr + int z)) constrs"
    and "j < z \<Longrightarrow> \<not> is_NULL (read_int c (ptr + int j)) constrs"
  using find_zero_from_Some[of c constrs ptr 0 z] assms by (simp_all add: find_zero_def)

subsection \<open>strcpy on concrete bytes\<close>

lemma strcpy_copy_diverges:
  assumes "strcpy_copy c constrs dst src ch = Some res"
  shows "\<not> (not_NULL ch constrs \<and> dst = src + 1)"
proof (rule strcpy_copy.raw_induct
    [where P = "\<lambda>c constrs dst src ch res. \<not> (not_NULL ch constrs \<and> dst = src + 1)",
      OF _ assms])
  fix f :: "Cpu \<Rightarrow> constraint_set \<Rightarrow> int \<Rightarrow> int \<Rightarrow> val \<Rightarrow> (Cpu \<times> int \<times> int \<times> val) option"
    and c constrs dst src ch res
  assume IH: "\<And>c constrs dst src ch res. f c constrs dst src ch = Some res \<Longrightarrow>
       \<not> (not_NULL ch constrs \<and> dst = src + 1)"
  assume step: "(if not_NULL ch constrs
      then f (write_int c dst ch) constrs (dst + 1) (src + 1)
             (read_int (write_int c dst ch) (src + 1))
      else Some (c, dst, src, ch)) = Some res"
  show "\<not> (not_NULL ch constrs \<and> dst = src + 1)"
  proof
    assume a: "not_NULL ch constrs \<and> dst = src + 1"
    with step have "f (write_int c dst ch) constrs (dst + 1) (src + 1)
             (read_int (write_int c dst ch) (src + 1)) = Some res" by simp
    from IH[OF this] a show False by (simp add: read_int_def write_int_def)
  qed
qed

lemma strcpy_copy_run:
  "(\<forall>j<p. not_NULL (memory c (src + int j)) constrs) \<Longrightarrow>
   \<not> not_NULL (memory c (src + int p)) constrs \<Longrightarrow>
   \<not> (src < dst \<and> dst \<le> src + int p) \<Longrightarrow>
   strcpy_copy c constrs dst src (memory c src) =
     Some (c\<lparr>memory := \<lambda>a. if dst \<le> a \<and> a < dst + int p then memory c (src + (a - dst))
                            else memory c a\<rparr>,
           dst + int p, src + int p, memory c (src + int p))"
proof (induction p arbitrary: c dst src)
  case 0
  have "(\<lambda>a. if dst \<le> a \<and> a < dst + int 0 then memory c (src + (a - dst)) else memory c a)
          = memory c" by (rule ext) auto
  with 0 show ?case by (subst strcpy_copy.simps) simp
next
  case (Suc p)
  let ?c = "write_int c dst (memory c src)"
  from Suc.prems(1) have nn: "not_NULL (memory c src) constrs"
    by (metis add.right_neutral of_nat_0 zero_less_Suc)
  have mem: "memory ?c a = memory c a" if "a \<noteq> dst" for a
    using that by (simp add: write_int_def)
  have far: "src + 1 + int j \<noteq> dst" if "j \<le> p" for j
    using Suc.prems(3) that by auto
  have rd: "read_int ?c (src + 1) = memory ?c (src + 1)" by (simp add: read_int_def)
  have "strcpy_copy ?c constrs (dst + 1) (src + 1) (memory ?c (src + 1)) =
     Some (?c\<lparr>memory := \<lambda>a. if dst + 1 \<le> a \<and> a < dst + 1 + int p
                             then memory ?c (src + 1 + (a - (dst + 1))) else memory ?c a\<rparr>,
           dst + 1 + int p, src + 1 + int p, memory ?c (src + 1 + int p))"
  proof (rule Suc.IH)
    show "\<forall>j<p. not_NULL (memory ?c (src + 1 + int j)) constrs"
    proof (intro allI impI)
      fix j assume "j < p"
      then have "Suc j < Suc p" "j \<le> p" by simp_all
      with Suc.prems(1) have "not_NULL (memory c (src + int (Suc j))) constrs" by blast
      with mem[OF far[OF \<open>j \<le> p\<close>]] show "not_NULL (memory ?c (src + 1 + int j)) constrs"
        by (simp add: add.assoc add.commute[of 1])
    qed
    show "\<not> not_NULL (memory ?c (src + 1 + int p)) constrs"
      using Suc.prems(2) mem[OF far[of p]] by (simp add: add.assoc add.commute[of 1])
    show "\<not> (src + 1 < dst + 1 \<and> dst + 1 \<le> src + 1 + int p)"
      using Suc.prems(3) by auto
  qed
  moreover have "?c\<lparr>memory := \<lambda>a. if dst + 1 \<le> a \<and> a < dst + 1 + int p
                             then memory ?c (src + 1 + (a - (dst + 1))) else memory ?c a\<rparr> =
     c\<lparr>memory := \<lambda>a. if dst \<le> a \<and> a < dst + int (Suc p) then memory c (src + (a - dst))
                            else memory c a\<rparr>"
  proof -
    have "(if dst + 1 \<le> a \<and> a < dst + 1 + int p
            then memory ?c (src + 1 + (a - (dst + 1))) else memory ?c a) =
          (if dst \<le> a \<and> a < dst + int (Suc p) then memory c (src + (a - dst))
                            else memory c a)" for a
    proof (cases "dst + 1 \<le> a \<and> a < dst + 1 + int p")
      case True
      then have "src + (a - dst) \<noteq> dst" using Suc.prems(3) by auto
      from mem[OF this] True show ?thesis by simp
    next
      case False
      then show ?thesis by (auto simp: write_int_def)
    qed
    then show ?thesis by (simp add: write_int_def)
  qed
  moreover have "memory ?c (src + 1 + int p) = memory c (src + int (Suc p))"
    using mem[OF far[of p]] by (simp add: add.assoc add.commute[of 1])
  ultimately show ?case
    using nn by (subst strcpy_copy.simps) (simp add: rd add.assoc add.commute[of 1])
qed

subsection \<open>Fully concrete memory\<close>

lemma concrete_read:
  "\<forall>a. concrete_byte c a (m a) \<Longrightarrow> read_int c a = Concrete (m a)"
  by (simp add: concrete_byte_def)

lemma strlen_concrete:
  assumes conc: "\<forall>a. concrete_byte (cpu state) a (m a)"
    and z: "m (s + int n) = 0" and nz: "\<forall>j<n. m (s + int j) \<noteq> 0"
  shows "strlen state (Concrete s) = Some (Inr (Concrete (int n)), state)"
proof -
  from conc z nz have "find_zero (cpu state) (constraints state) s = Some n"
    using find_zero_from_found[of "cpu state" s 0 n "constraints state"]
    by (simp add: find_zero_def concrete_read)
  moreover from conc have "\<forall>j<n. \<not> issymbolic (read_int (cpu state) (s + int j))"
    by (simp add: concrete_read)
  ultimately show ?thesis
    by (simp add: strlen_def strlen_walk_concrete)
qed

lemma strcmp_concrete_diff:
  assumes conc: "\<forall>a. concrete_byte (cpu state) a (m a)"
    and w: "8 \<le> address_bit_size (cpu state)"
    and z1: "m (s1 + int n1) = 0" and z2: "m (s2 + int n2) = 0"
    and d: "m (s1 + int k) \<noteq> m (s2 + int k)"
    and e: "\<forall>j<k. m (s1 + int j) = m (s2 + int j) \<and> m (s1 + int j) \<noteq> 0"
  shows "strcmp state (Concrete s1) (Concrete s2) =
           Some (Inr (Some (Concrete (m (s1 + int k) - m (s2 + int k)))), state)"
proof -
  let ?c = "cpu state" and ?cs = "constraints state"
  from conc z1 have "is_NULL (read_int ?c (s1 + int n1)) ?cs" by (simp add: concrete_read)
  from find_zero_terminates[OF this] obtain i1 where i1: "find_zero ?c ?cs s1 = Some i1"
    by blast
  from conc z2 have "is_NULL (read_int ?c (s2 + int n2)) ?cs" by (simp add: concrete_read)
  from find_zero_terminates[OF this] obtain i2 where i2: "find_zero ?c ?cs s2 = Some i2"
    by blast
  from find_zero_SomeD(1)[OF i1] conc have "m (s1 + int i1) = 0" by (simp add: concrete_read)
  with e have k1: "k \<le> i1" by (metis not_le)
  from find_zero_SomeD(1)[OF i2] conc have "m (s2 + int i2) = 0" by (simp add: concrete_read)
  with e have k2: "k \<le> i2" by (metis not_le)
  from k1 k2 have k: "k \<le> min i1 i2" by simp
  from e conc have eq: "\<forall>j<k. \<exists>a. concrete_byte ?c (s1 + int j) a \<and> concrete_byte ?c (s2 + int j) a"
    by metis
  from conc have "concrete_byte ?c (s1 + int k) (m (s1 + int k))"
    "concrete_byte ?c (s2 + int k) (m (s2 + int k))" by simp_all
  from strcmp_walk_first_diff[OF k this d eq w, of None] i1 i2 show ?thesis
    by (simp add: strcmp_def)
qed

lemma strcmp_concrete_equal:
  assumes conc: "\<forall>a. concrete_byte (cpu state) a (m a)"
    and w: "8 \<le> address_bit_size (cpu state)"
    and z: "m (s1 + int n) = 0"
    and e: "\<forall>j\<le>n. m (s1 + int j) = m (s2 + int j)"
  shows "strcmp state (Concrete s1) (Concrete s2) = Some (Inr (Some (Concrete 0)), state)"
proof -
  let ?c = "cpu state" and ?cs = "constraints state"
  from conc z have "is_NULL (read_int ?c (s1 + int n)) ?cs" by (simp add: concrete_read)
  from find_zero_terminates[OF this] obtain i1 where
    i1: "find_zero ?c ?cs s1 = Some i1" "i1 \<le> n" by blast
  from z e have "m (s2 + int n) = 0" by (metis order_refl)
  with conc have "is_NULL (read_int ?c (s2 + int n)) ?cs" by (simp add: concrete_read)
  from find_zero_terminates[OF this] obtain i2 where
    i2: "find_zero ?c ?cs s2 = Some i2" "i2 \<le> n" by blast
  from i1 i2 have "min i1 i2 \<le> n" by simp
  with e conc
  have "\<forall>j\<le>min i1 i2. \<exists>a. concrete_byte ?c (s1 + int j) a \<and> concrete_byte ?c (s2 + int j) a"
    by (metis order_trans)
  from strcmp_walk_equal[OF this w, of None] i1 i2 show ?thesis
    by (simp add: strcmp_def)
qed

lemma strcpy_concrete:
  assumes conc: "\<forall>a. concrete_byte (cpu state) a (m a)"
    and z: "m (src + int n) = 0" and nz: "\<forall>j<n. m (src + int j) \<noteq> 0"
    and ov: "\<not> (src < dst \<and> dst \<le> src + int n)"
  shows "strcpy state (Concrete dst) (Concrete src) =
     Some (Inr (Concrete dst),
           state\<lparr>cpu := (cpu state)\<lparr>memory :=
              \<lambda>a. if dst \<le> a \<and> a \<le> dst + int n then Concrete (m (src + (a - dst)))
                  else Concrete (m a)\<rparr>\<rparr>)"
proof -
  let ?c = "cpu state" and ?cs = "constraints state"
  from conc have mem: "memory ?c a = Concrete (m a)" for a
    by (simp add: concrete_byte_def read_int_def)
  have "strcpy_copy ?c ?cs dst src (memory ?c src) =
     Some (?c\<lparr>memory := \<lambda>a. if dst \<le> a \<and> a < dst + int n then memory ?c (src + (a - dst))
                            else memory ?c a\<rparr>,
           dst + int n, src + int n, memory ?c (src + int n))"
    by (rule strcpy_copy_run) (use z nz ov in \<open>simp_all add: mem\<close>)
  moreover have "write_int (?c\<lparr>memory := \<lambda>a. if dst \<le> a \<and> a < dst + int n
            then memory ?c (src + (a - dst)) else memory ?c a\<rparr>) (dst + int n) (Concrete 0) =
       ?c\<lparr>memory := \<lambda>a. if dst \<le> a \<and> a \<le> dst + int n then Concrete (m (src + (a - dst)))
                  else Concrete (m a)\<rparr>"
  proof -
    have "((\<lambda>a. if dst \<le> a \<and> a < dst + int n then memory ?c (src + (a - dst))
                 else memory ?c a)(dst + int n := Concrete 0)) =
          (\<lambda>a. if dst \<le> a \<and> a \<le> dst + int n then Concrete (m (src + (a - dst)))
                  else Concrete (m a))"
      by (rule ext) (use z in \<open>auto simp: mem\<close>)
    then show ?thesis by (simp add: write_int_def)
  qed
  ultimately show ?thesis
    using z by (simp add: strcpy_def read_int_def mem)
qed

text \<open>C1, as the specification states it, fails for \<open>strcpy\<close>: with the string
  \<^verbatim>\<open>"a"\<close> at address 0 and the destination at address 1, inside the source string, the copy
  loop reads back the byte it has just written and never reaches the terminator.\<close>

theorem strcpy_overlap_never_returns:
  "read_int (cpu state_a0) 0 = Concrete 97 \<and> read_int (cpu state_a0) 1 = Concrete 0 \<and>
   strcpy state_a0 (Concrete 1) (Concrete 0) = None"
proof -
  have "strcpy_copy (cpu state_a0) (constraints state_a0) 1 0 (read_int (cpu state_a0) 0) = None"
  proof (cases "strcpy_copy (cpu state_a0) (constraints state_a0) 1 0 (read_int (cpu state_a0) 0)")
    case None
    then show ?thesis .
  next
    case (Some res)
    from strcpy_copy_diverges[OF this] show ?thesis
      by (simp add: state_a0_def cpu_a0_def read_int_def)
  qed
  then show ?thesis
    by (simp add: strcpy_def) (simp add: state_a0_def cpu_a0_def read_int_def)
qed

text \<open>C1 (amended): on a memory of concrete bytes \<open>m\<close> (every byte an integer from 0 to
  255, the pointer width at least 8 bits),
  \<^item> \<open>strlen\<close> returns the offset of the first zero byte at or after \<open>s\<close>;
  \<^item> \<open>strcmp\<close> on two terminated strings returns the difference of the bytes at the first
    offset where they differ, and 0 when they are equal through the terminator, which is in
    both cases the result of the reference \<open>libc_strcmp\<close>;
  \<^item> \<open>strcpy\<close>, when the destination does not start inside the source string after its
    first byte, returns the destination pointer and leaves a memory that holds the source
    string, terminator included, at the destination and is unchanged everywhere else.\<close>

theorem concrete_models_match_reference:
  assumes "\<forall>a. concrete_byte (cpu state) a (m a)"
    and "8 \<le> address_bit_size (cpu state)"
  shows
   "(m (s + int n) = 0 \<and> (\<forall>j<n. m (s + int j) \<noteq> 0) \<longrightarrow>
       strlen state (Concrete s) = Some (Inr (Concrete (int n)), state)) \<and>
    (m (s1 + int n1) = 0 \<and> m (s2 + int n2) = 0 \<and> m (s1 + int k) \<noteq> m (s2 + int k) \<and>
     (\<forall>j<k. m (s1 + int j) = m (s2 + int j) \<and> m (s1 + int j) \<noteq> 0) \<longrightarrow>
       strcmp state (Concrete s1) (Concrete s2) =
         Some (Inr (Some (Concrete (m (s1 + int k) - m (s2 + int k)))), state) \<and>
       libc_strcmp m s1 s2 = Some (m (s1 + int k) - m (s2 + int k))) \<and>
    (m (s1 + int n1) = 0 \<and> (\<forall>j\<le>n1. m (s1 + int j) = m (s2 + int j)) \<longrightarrow>
       strcmp state (Concrete s1) (Concrete s2) = Some (Inr (Some (Concrete 0)), state) \<and>
       libc_strcmp m s1 s2 = Some 0) \<and>
    (m (src + int n) = 0 \<and> (\<forall>j<n. m (src + int j) \<noteq> 0) \<and>
     \<not> (src < dst \<and> dst \<le> src + int n) \<longrightarrow>
       strcpy state (Concrete dst) (Concrete src) =
         Some (Inr (Concrete dst),
               state\<lparr>cpu := (cpu state)\<lparr>memory :=
                  \<lambda>a. if dst \<le> a \<and> a \<le> dst + int n then Concrete (m (src + (a - dst)))
                      else Concrete (m a)\<rparr>\<rparr>))"
  using strlen_concrete[OF assms(1), of s n]
    strcmp_concrete_diff[OF assms, of s1 n1 s2 n2 k] libc_strcmp_first_diff[of m s1 k s2]
    strcmp_concrete_equal[OF assms, of s1 n1 s2] libc_strcmp_equal[of m s1 n1 s2]
    strcpy_concrete[OF assms(1), of src n dst]
  by blast

lemma state_abc_concrete: "\<forall>a. concrete_byte (cpu state_abc) a (mem_abc a)"
  by (simp add: concrete_byte_def state_abc_def read_int_def mem_abc_def)

theorem concrete_models_match_reference_witness:
  "strlen state_abc (Concrete 0) = Some (Inr (Concrete 3), state_abc) \<and>
   strcmp state_abc (Concrete 0) (Concrete 10) = Some (Inr (Some (Concrete (- 1))), state_abc) \<and>
   libc_strcmp mem_abc 0 10 = Some (- 1) \<and>
   strcmp state_abc (Concrete 0) (Concrete 0) = Some (Inr (Some (Concrete 0)), state_abc) \<and>
   libc_strcmp mem_abc 0 0 = Some 0 \<and>
   strcpy state_abc (Concrete 20) (Concrete 0) =
     Some (Inr (Concrete 20),
           state_abc\<lparr>cpu := (cpu state_abc)\<lparr>memory :=
              \<lambda>a. if 20 \<le> a \<and> a \<le> 20 + int 3 then Concrete (mem_abc (0 + (a - 20)))
                  else Concrete (mem_abc a)\<rparr>\<rparr>)"
proof -
  have w: "8 \<le> address_bit_size (cpu state_abc)" by (simp add: state_abc_def)
  have a: "mem_abc (0 + int 3) = 0 \<and> (\<forall>j<3. mem_abc (0 + int j) \<noteq> 0)"
    by (simp add: mem_abc_def less_Suc_eq numeral_3_eq_3)
  have b: "mem_abc (0 + int 3) = 0 \<and> mem_abc (10 + int 3) = 0 \<and>
     mem_abc (0 + int 2) \<noteq> mem_abc (10 + int 2) \<and>
     (\<forall>j<2. mem_abc (0 + int j) = mem_abc (10 + int j) \<and> mem_abc (0 + int j) \<noteq> 0)"
    by (simp add: mem_abc_def less_Suc_eq numeral_2_eq_2)
  have c: "mem_abc (0 + int 3) = 0 \<and> (\<forall>j\<le>3. mem_abc (0 + int j) = mem_abc (0 + int j))"
    by (simp add: mem_abc_def)
  have d: "\<not> ((0::int) < 20 \<and> 20 \<le> 0 + int 3)" by simp
  have v: "mem_abc (0 + int 2) - mem_abc (10 + int 2) = - 1" by (simp add: mem_abc_def)
  note t1 = concrete_models_match_reference[OF state_abc_concrete w, of 0 3 0 3 10 3 2 0 20]
  note t2 = concrete_models_match_reference[OF state_abc_concrete w, of 0 3 0 3 0 3 2 0 20]
  from t1 a have r1: "strlen state_abc (Concrete 0) = Some (Inr (Concrete (int 3)), state_abc)"
    by blast
  from t1 b have r2: "strcmp state_abc (Concrete 0) (Concrete 10) =
      Some (Inr (Some (Concrete (mem_abc (0 + int 2) - mem_abc (10 + int 2)))), state_abc) \<and>
      libc_strcmp mem_abc 0 10 = Some (mem_abc (0 + int 2) - mem_abc (10 + int 2))"
    by blast
  from t2 c have r3: "strcmp state_abc (Concrete 0) (Concrete 0) =
      Some (Inr (Some (Concrete 0)), state_abc) \<and> libc_strcmp mem_abc 0 0 = Some 0"
    by blast
  from t1 a d have r4: "strcpy state_abc (Concrete 20) (Concrete 0) =
     Some (Inr (Concrete 20),
           state_abc\<lparr>cpu := (cpu state_abc)\<lparr>memory :=
              \<lambda>a. if 20 \<le> a \<and> a \<le> 20 + int 3 then Concrete (mem_abc (0 + (a - 20)))
                  else Concrete (mem_abc a)\<rparr>\<rparr>)"
    by blast
  from r1 r2[unfolded v] r3 r4 show ?thesis by simp
qed

section \<open>A concrete mismatch in strcmp\<close>

lemma find_zero_state_mix:
  "find_zero (cpu state_mix) (constraints state_mix) 0 = Some 3 \<and>
   find_zero (cpu state_mix) (constraints state_mix) 10 = Some 3"
proof -
  have "is_NULL (read_int cpu_mix (0 + int (0 + 3))) [] \<and>
      (\<forall>j<3. \<not> is_NULL (read_int cpu_mix (0 + int (0 + j))) [])"
    by (simp add: cpu_mix_def read_int_def is_NULL_def can_be_nonzero_Variable
        less_Suc_eq numeral_3_eq_3)
  moreover have "is_NULL (read_int cpu_mix (10 + int (0 + 3))) [] \<and>
      (\<forall>j<3. \<not> is_NULL (read_int cpu_mix (10 + int (0 + j))) [])"
    by (simp add: cpu_mix_def read_int_def is_NULL_def can_be_nonzero_Variable
        less_Suc_eq numeral_3_eq_3)
  ultimately show ?thesis
    using find_zero_from_found[of cpu_mix 0 0 3 "[]"] find_zero_from_found[of cpu_mix 10 0 3 "[]"]
    by (simp add: find_zero_def state_mix_def)
qed

text \<open>C8: if \<open>k\<close> is an offset of the walk of \<open>strcmp\<close> (at most the smaller of the two
  terminator offsets) where both bytes are concrete and unequal, and both bytes are concrete
  and equal at every smaller offset, then \<open>strcmp\<close> returns the concrete difference of the
  two bytes at \<open>k\<close>; the walk from \<open>k\<close> down returns it whatever value \<open>ret\<close> it has
  accumulated at the larger offsets; and the reference \<open>libc_strcmp\<close> returns the same
  number on the memory under every assignment (so under every satisfying one).\<close>

theorem strcmp_concrete_mismatch_final:
  assumes "find_zero (cpu state) (constraints state) s1 = Some z1"
    and "find_zero (cpu state) (constraints state) s2 = Some z2"
    and "k \<le> min z1 z2"
    and "concrete_byte (cpu state) (s1 + int k) a"
    and "concrete_byte (cpu state) (s2 + int k) b"
    and "a \<noteq> b"
    and "\<forall>j<k. \<exists>x. concrete_byte (cpu state) (s1 + int j) x \<and>
                   concrete_byte (cpu state) (s2 + int j) x"
    and "8 \<le> address_bit_size (cpu state)"
  shows "strcmp state (Concrete s1) (Concrete s2) = Some (Inr (Some (Concrete (a - b))), state) \<and>
         (\<forall>ret. strcmp_walk (cpu state) s1 s2 k ret = Some (Concrete (a - b))) \<and>
         (\<forall>\<sigma>. libc_strcmp (concretize \<sigma> (cpu state)) s1 s2 = Some (a - b))"
proof (intro conjI allI)
  from strcmp_walk_first_diff[OF assms(3-8), of None] assms(1,2)
  show "strcmp state (Concrete s1) (Concrete s2) = Some (Inr (Some (Concrete (a - b))), state)"
    by (simp add: strcmp_def)
next
  fix ret
  from strcmp_walk_first_diff[OF order_refl assms(4-8)]
  show "strcmp_walk (cpu state) s1 s2 k ret = Some (Concrete (a - b))" .
next
  fix \<sigma>
  let ?m = "concretize \<sigma> (cpu state)"
  from assms(4,5) have ab: "?m (s1 + int k) = a" "?m (s2 + int k) = b"
    by (simp_all add: concretize_def concrete_byte_def)
  have "?m (s1 + int j) = ?m (s2 + int j) \<and> ?m (s1 + int j) \<noteq> 0" if "j < k" for j
  proof -
    from assms(7) that obtain x where
      x: "concrete_byte (cpu state) (s1 + int j) x" "concrete_byte (cpu state) (s2 + int j) x"
      by blast
    from that assms(3) have "j < z1" by simp
    from find_zero_SomeD(2)[OF assms(1) this] x(1) have "x \<noteq> 0"
      by (simp add: concrete_byte_def)
    with x show ?thesis by (simp add: concretize_def concrete_byte_def)
  qed
  then have "\<forall>j<k. ?m (s1 + int j) = ?m (s2 + int j) \<and> ?m (s1 + int j) \<noteq> 0" by blast
  moreover from ab assms(6) have "?m (s1 + int k) \<noteq> ?m (s2 + int k)" by simp
  ultimately have "libc_strcmp ?m s1 s2 = Some (?m (s1 + int k) - ?m (s2 + int k))"
    by (rule libc_strcmp_first_diff [rotated])
  with ab show "libc_strcmp ?m s1 s2 = Some (a - b)" by simp
qed

theorem strcmp_concrete_mismatch_final_witness:
  "strcmp state_mix (Concrete 0) (Concrete 10) = Some (Inr (Some (Concrete (98 - 99))), state_mix) \<and>
   (\<forall>ret. strcmp_walk (cpu state_mix) 0 10 1 ret = Some (Concrete (98 - 99))) \<and>
   (\<forall>\<sigma>. libc_strcmp (concretize \<sigma> (cpu state_mix)) 0 10 = Some (98 - 99))"
proof (rule strcmp_concrete_mismatch_final [where ?z1.0 = 3 and ?z2.0 = 3])
  show "find_zero (cpu state_mix) (constraints state_mix) 0 = Some 3"
    using find_zero_state_mix by simp
  show "find_zero (cpu state_mix) (constraints state_mix) 10 = Some 3"
    using find_zero_state_mix by simp
  show "(1::nat) \<le> min 3 3" by simp
  show "concrete_byte (cpu state_mix) (0 + int 1) 98"
    by (simp add: concrete_byte_def state_mix_def cpu_mix_def read_int_def)
  show "concrete_byte (cpu state_mix) (10 + int 1) 99"
    by (simp add: concrete_byte_def state_mix_def cpu_mix_def read_int_def)
  show "(98::int) \<noteq> 99" by simp
  show "\<forall>j<1. \<exists>x. concrete_byte (cpu state_mix) (0 + int j) x \<and>
                   concrete_byte (cpu state_mix) (10 + int j) x"
    by (simp add: concrete_byte_def state_mix_def cpu_mix_def read_int_def)
  show "8 \<le> address_bit_size (cpu state_mix)"
    by (simp add: state_mix_def cpu_mix_def)
qed

end
